theory Spec2Isabelle
  imports Complex_Main
begin

section \<open>Python string primitives used by the program\<close>

text \<open>
  A Python \<open>str\<close> is modelled as a \<open>string\<close> whose characters are the code points
  0..255 (ASCII and Latin-1).  In that range the decimal digits of \<open>int()\<close> and of the
  regular expression class \<open>\d\<close> are exactly \<open>0\<close>..\<open>9\<close>, and the white space removed by
  \<open>str.strip()\<close> and skipped by \<open>int()\<close> is the set given by \<open>py_isspace\<close>.
\<close>

definition is_digit :: "char \<Rightarrow> bool" where
  "is_digit c = (48 \<le> (of_char c :: nat) \<and> (of_char c :: nat) \<le> 57)"

definition digit_val :: "char \<Rightarrow> nat" where
  "digit_val c = (of_char c :: nat) - 48"

definition py_isspace :: "char \<Rightarrow> bool" where
  "py_isspace c = ((of_char c :: nat) \<in> {9, 10, 11, 12, 13, 28, 29, 30, 31, 32, 133, 160})"

definition py_strip :: "string \<Rightarrow> string" where
  "py_strip s = rev (dropWhile py_isspace (rev (dropWhile py_isspace s)))"

text \<open>\<open>s.split(sep)\<close> for a one-character separator: always at least one field.\<close>

fun split_on :: "char \<Rightarrow> string \<Rightarrow> string list" where
  "split_on sep [] = [[]]"
| "split_on sep (c # cs) =
     (if c = sep then [] # split_on sep cs
      else (case split_on sep cs of
              [] \<Rightarrow> [[c]]
            | p # ps \<Rightarrow> (c # p) # ps))"

text \<open>
  \<open>int(s)\<close> in base ten: surrounding white space is dropped, one sign is allowed, then at
  least one digit, with single underscores allowed between digits.  \<open>None\<close> stands for
  the \<open>ValueError\<close> that \<open>int\<close> raises.  (The bound that recent interpreters put on the
  number of digits, 4300 unless configured, is left out.)
\<close>

fun digits_acc :: "nat \<Rightarrow> string \<Rightarrow> nat option" where
  "digits_acc acc [] = Some acc"
| "digits_acc acc [c] = (if is_digit c then Some (acc * 10 + digit_val c) else None)"
| "digits_acc acc (c # d # ds) =
     (if is_digit c then digits_acc (acc * 10 + digit_val c) (d # ds)
      else if c = CHR ''_'' \<and> is_digit d then digits_acc (acc * 10 + digit_val d) ds
      else None)"

definition py_digits :: "string \<Rightarrow> nat option" where
  "py_digits s = (case s of [] \<Rightarrow> None
                  | c # cs \<Rightarrow> if is_digit c then digits_acc (digit_val c) cs else None)"

definition py_int :: "string \<Rightarrow> int option" where
  "py_int s =
     (case py_strip s of
        [] \<Rightarrow> None
      | c # cs \<Rightarrow>
          if c = CHR ''-'' then map_option (\<lambda>n. - int n) (py_digits cs)
          else if c = CHR ''+'' then map_option int (py_digits cs)
          else map_option int (py_digits (c # cs)))"

text \<open>\<open>s.endswith(suffix)\<close>, \<open>s.replace(a, b)\<close> for single characters, \<open>s.lower()\<close>.\<close>

definition endswith :: "string \<Rightarrow> string \<Rightarrow> bool" where
  "endswith s suffix = (length suffix \<le> length s \<and> drop (length s - length suffix) s = suffix)"

definition replace_char :: "char \<Rightarrow> char \<Rightarrow> string \<Rightarrow> string" where
  "replace_char a b s = map (\<lambda>c. if c = a then b else c) s"

definition py_lower_char :: "char \<Rightarrow> char" where
  "py_lower_char c =
     (let n = (of_char c :: nat)
      in if (65 \<le> n \<and> n \<le> 90) \<or> (192 \<le> n \<and> n \<le> 222 \<and> n \<noteq> 215)
         then char_of (n + 32) else c)"

definition py_lower :: "string \<Rightarrow> string" where
  "py_lower s = map py_lower_char s"

section \<open>Errors\<close>

text \<open>
  One constructor for each \<open>raise\<close> of the source.  The first six and
  \<open>InvalidSegmentDuration\<close> are Python \<open>ValueError\<close>s; \<open>CombineError\<close>, \<open>SegmentRunError\<close>,
  \<open>SegmentError\<close> and \<open>ProcessingFailed\<close> are \<open>RuntimeError\<close>s, the last two wrapping the
  error they caught.  \<open>ProbeError\<close> and \<open>SpawnError\<close> stand for whatever the media probe
  and the process library raise.
\<close>

datatype ts_fault = NotTwoFields | NumbersOnly

datatype error =
    InvalidTimestamp string ts_fault
  | InvalidTimestampFormat string
  | NoTimestampsProvided
  | MissingInput
  | NotMp4
  | BadAudioFormat
  | ProbeError
  | SpawnError
  | CombineError string
  | InvalidSegmentDuration string string
  | SegmentRunError string
  | SegmentError string string error
  | ProcessingFailed error


section \<open>Timestamps\<close>

text \<open>
  \<open>VideoProcessor.convert_timestamp\<close>.  The \<open>ValueError\<close> raised for seconds of 60 or
  more is raised inside the \<open>try\<close> and so is caught and replaced by the same error as a
  field that is not a number.
\<close>

definition convert_timestamp :: "string \<Rightarrow> error + int" where
  "convert_timestamp timestamp =
     (case split_on CHR '':'' timestamp of
        [p0, p1] \<Rightarrow>
          (case py_int p0 of
             None \<Rightarrow> Inl (InvalidTimestamp timestamp NumbersOnly)
           | Some minutes \<Rightarrow>
               (case py_int p1 of
                  None \<Rightarrow> Inl (InvalidTimestamp timestamp NumbersOnly)
                | Some seconds \<Rightarrow>
                    if seconds \<ge> 60 then Inl (InvalidTimestamp timestamp NumbersOnly)
                    else Inr (minutes * 60 + seconds)))
      | _ \<Rightarrow> Inl (InvalidTimestamp timestamp NotTwoFields))"

text \<open>
  The line pattern \<open>(\d{2}:\d{2})-(\d{2}:\d{2})\<close> applied with \<open>pattern.match\<close>: the
  pattern is looked for at the start of the line only, and the two groups are returned.
\<close>

definition matches_mmss :: "string \<Rightarrow> bool" where
  "matches_mmss t =
     (case t of
        [a, b, c, d, e] \<Rightarrow> is_digit a \<and> is_digit b \<and> c = CHR '':'' \<and> is_digit d \<and> is_digit e
      | _ \<Rightarrow> False)"

definition pattern_match :: "string \<Rightarrow> (string \<times> string) option" where
  "pattern_match line =
     (if 11 \<le> length line \<and> matches_mmss (take 5 line) \<and> line ! 5 = CHR ''-''
         \<and> matches_mmss (take 5 (drop 6 line))
      then Some (take 5 line, take 5 (drop 6 line)) else None)"

record TimeSegment =
  start :: string
  end_ts :: string

text \<open>
  \<open>Application.parse_timestamps\<close>, on the content of the text field.  \<open>parse_lines\<close> is
  the \<open>for\<close> loop, with the list \<open>timestamps\<close> built so far.
\<close>

fun parse_lines :: "string list \<Rightarrow> TimeSegment list \<Rightarrow> error + TimeSegment list" where
  "parse_lines [] timestamps = Inr timestamps"
| "parse_lines (l # ls) timestamps =
     (let line = py_strip l in
      if line = [] then parse_lines ls timestamps
      else (case pattern_match line of
              None \<Rightarrow> Inl (InvalidTimestampFormat line)
            | Some (s, e) \<Rightarrow>
                (case convert_timestamp s of
                   Inl err \<Rightarrow> Inl err
                 | Inr _ \<Rightarrow>
                     (case convert_timestamp e of
                        Inl err \<Rightarrow> Inl err
                      | Inr _ \<Rightarrow>
                          parse_lines ls (timestamps @ [\<lparr>start = s, end_ts = e\<rparr>])))))"

definition parse_timestamps :: "string \<Rightarrow> error + TimeSegment list" where
  "parse_timestamps text =
     (case parse_lines (split_on (CHR 0x0A) text) [] of
        Inl err \<Rightarrow> Inl err
      | Inr timestamps \<Rightarrow> if timestamps = [] then Inl NoTimestampsProvided else Inr timestamps)"

text \<open>
  The textual form \<open>MM:SS\<close> of the data model (two digits, a colon, two digits, seconds
  below 60), and the formatting of a number of seconds back to it.  The program has no
  formatting function: \<open>format_mmss\<close> is the zero-padded formatting the round trip of
  the specification speaks of.
\<close>

definition valid_mmss :: "string \<Rightarrow> bool" where
  "valid_mmss t =
     (case t of
        [a, b, c, d, e] \<Rightarrow>
          is_digit a \<and> is_digit b \<and> c = CHR '':'' \<and> is_digit d \<and> is_digit e
          \<and> digit_val d * 10 + digit_val e < 60
      | _ \<Rightarrow> False)"

definition digit_char :: "nat \<Rightarrow> char" where
  "digit_char n = char_of (48 + n)"

definition format_mmss :: "int \<Rightarrow> string" where
  "format_mmss n =
     (let m = nat n div 60; s = nat n mod 60
      in [digit_char (m div 10), digit_char (m mod 10), CHR '':'',
          digit_char (s div 10), digit_char (s mod 10)])"

section \<open>The processing pipeline\<close>

text \<open>\<open>str(n)\<close> for an integer.\<close>

fun str_nat :: "nat \<Rightarrow> string" where
  "str_nat n = (if n < 10 then [digit_char n] else str_nat (n div 10) @ [digit_char (n mod 10)])"

declare str_nat.simps [simp del]

definition py_str :: "int \<Rightarrow> string" where
  "py_str i = (if i < 0 then CHR ''-'' # str_nat (nat (- i)) else str_nat (nat i))"

text \<open>\<open>int(x)\<close> for a number: truncation towards zero.\<close>

definition py_trunc :: "rat \<Rightarrow> int" where
  "py_trunc x = (if 0 \<le> x then \<lfloor>x\<rfloor> else \<lceil>x\<rceil>)"

text \<open>The quotient of two integers rounded towards zero (truncating division).\<close>

definition trunc_quot :: "int \<Rightarrow> int \<Rightarrow> int" where
  "trunc_quot a b = sgn a * sgn b * (\<bar>a\<bar> div \<bar>b\<bar>)"

text \<open>
  What the program does to the outside, in order: a process it starts (or tries to), a
  file it removes, a line it prints, a dialog it shows, the status label it sets.
\<close>

datatype action =
    Exec "string list"
  | Remove string
  | Print string
  | Showerror string "error option"
  | Showinfo string string
  | SetStatus string

text \<open>
  The fields of \<open>VideoProcessor\<close>, with both queues as lists in emission order, and the
  trace of actions.  Progress values are Python floats in the source; here they are
  rationals, so the arithmetic of the model is exact where the program rounds to the
  nearest double.
\<close>

record VideoProcessor =
  top_video :: "string option"
  bottom_video :: "string option"
  audio_file :: "string option"
  output_dir :: "string option"
  has_nvidia :: bool
  progress_queue :: "rat list"
  status_queue :: "string list"
  actions :: "action list"

text \<open>
  The answers of the outside world during one run: whether the tool is installed, what
  the media probe reads as (width, height) of the first stream (\<open>None\<close> when it or the
  look-ups on its result raise), \<open>os.path.join\<close>, whether the combine process can be
  started, how many times \<open>poll()\<close> finds it still running, its exit code and error
  stream, what \<open>subprocess.run\<close> gives for a segment command (\<open>None\<close> when it raises),
  whether the temporary file exists at the end and whether removing it works.
  External processes are assumed to exit.
\<close>

record world =
  ffmpeg_present :: bool
  probe :: "string \<Rightarrow> (int \<times> int) option"
  path_join :: "string \<Rightarrow> string \<Rightarrow> string"
  popen_ok :: bool
  combine_polls :: nat
  combine_returncode :: int
  combine_stderr :: string
  run_segment :: "string list \<Rightarrow> (int \<times> string) option"
  temp_exists :: bool
  remove_ok :: bool

definition put_progress :: "rat \<Rightarrow> VideoProcessor \<Rightarrow> VideoProcessor" where
  "put_progress v s = s\<lparr>progress_queue := progress_queue s @ [v]\<rparr>"

definition put_status :: "string \<Rightarrow> VideoProcessor \<Rightarrow> VideoProcessor" where
  "put_status m s = s\<lparr>status_queue := status_queue s @ [m]\<rparr>"

definition act :: "action \<Rightarrow> VideoProcessor \<Rightarrow> VideoProcessor" where
  "act a s = s\<lparr>actions := actions s @ [a]\<rparr>"

definition truthy :: "string option \<Rightarrow> bool" where
  "truthy x = (case x of None \<Rightarrow> False | Some s \<Rightarrow> s \<noteq> [])"

definition check_ffmpeg :: "world \<Rightarrow> VideoProcessor \<Rightarrow> bool \<times> VideoProcessor" where
  "check_ffmpeg w s =
     (let s1 = act (Exec [''ffmpeg'', ''-version'']) s in
      if ffmpeg_present w then (True, s1)
      else (False, act (Showerror ''FFmpeg Not Found'' None) s1))"

text \<open>
  The dimensions computed from the probed sizes (lines 93 to 95 of the source).  \<open>//\<close> is
  \<open>div\<close> on \<open>int\<close>; \<open>segment_height * 9 / 8\<close> is a division of integers with a float as
  result, exact while \<open>segment_height * 9\<close> stays below \<open>2^53\<close> in absolute value, and
  \<open>int\<close> then truncates towards zero.
\<close>

definition plan_geometry :: "int \<Rightarrow> int \<Rightarrow> int \<Rightarrow> int \<Rightarrow> int \<times> int" where
  "plan_geometry width_top height_top width_bottom height_bottom =
     (let target_height = min height_top height_bottom;
          segment_height = target_height div 2;
          segment_width = py_trunc (of_int segment_height * 9 / 8)
      in (segment_width, segment_height))"

text \<open>
  The loop that watches the combine process: \<open>polls\<close> is the number of times \<open>poll()\<close>
  still returns \<open>None\<close>; each round adds 0.1 to \<open>progress\<close> and puts it on the queue.
\<close>

fun combine_monitor :: "nat \<Rightarrow> rat \<Rightarrow> VideoProcessor \<Rightarrow> VideoProcessor" where
  "combine_monitor 0 progress s = s"
| "combine_monitor (Suc polls) progress s =
     (if progress < 98
      then combine_monitor polls (progress + 1 / 10) (put_progress (progress + 1 / 10) s)
      else s)"

definition combine_command ::
  "VideoProcessor \<Rightarrow> string \<Rightarrow> string \<Rightarrow> int \<Rightarrow> int \<Rightarrow> string \<Rightarrow> string list" where
  "combine_command s top_path bottom_path segment_width segment_height temp_output =
     (let video_encoder = (if has_nvidia s then ''h264_nvenc'' else ''libx264'');
          encoder_preset = (if has_nvidia s then ''p1'' else ''ultrafast'');
          bs = CHR 0x5C; sl = CHR ''/'';
          crop = ''crop='' @ py_str segment_width @ '':'' @ py_str segment_height
                 @ '':(in_w-'' @ py_str segment_width @ '')/2:(in_h-''
                 @ py_str segment_height @ '')/2''
      in [''ffmpeg'', ''-hwaccel'', ''auto'',
          ''-i'', replace_char bs sl top_path, ''-i'', replace_char bs sl bottom_path]
         @ (if truthy (audio_file s)
            then [''-i'', replace_char bs sl (case audio_file s of Some a \<Rightarrow> a | None \<Rightarrow> [])]
            else [])
         @ [''-filter_complex'',
            ''[0:v]'' @ crop @ ''[top];'' @ ''[1:v]'' @ crop @ ''[bottom];''
            @ ''[top][bottom]vstack[v]'']
         @ [''-map'', ''[v]'']
         @ (if truthy (audio_file s) then [''-map'', ''2:a''] else [''-map'', ''0:a''])
         @ [''-c:v'', video_encoder, ''-preset'', encoder_preset, ''-c:a'', ''aac'',
            ''-y'', temp_output])"

text \<open>The eleven values put on the progress queue after a segment has been written.\<close>

definition segment_ramp :: "nat \<Rightarrow> nat \<Rightarrow> rat list" where
  "segment_ramp index total_segments =
     (let progress_start = 30 + ((of_nat index - 1) / of_nat total_segments * 70);
          progress_end = 30 + (of_nat index / of_nat total_segments * 70);
          progress_step = (progress_end - progress_start) / 10
      in map (\<lambda>i. progress_start + (of_nat i * progress_step)) [0..<10] @ [progress_end])"

text \<open>
  The span of the progress bar allotted to segment \<open>i\<close> of \<open>n\<close>, in the words of the
  specification: from \<open>30 + 70*(i-1)/n\<close> to \<open>30 + 70*i/n\<close>.
\<close>

definition span_start :: "nat \<Rightarrow> nat \<Rightarrow> rat" where
  "span_start i n = 30 + 70 * (of_nat i - 1) / of_nat n"

definition span_end :: "nat \<Rightarrow> nat \<Rightarrow> rat" where
  "span_end i n = 30 + 70 * of_nat i / of_nat n"

definition segment_command ::
  "VideoProcessor \<Rightarrow> string \<Rightarrow> int \<Rightarrow> int \<Rightarrow> string \<Rightarrow> string list" where
  "segment_command s temp_output start_seconds duration output_file =
     [''ffmpeg'', ''-hwaccel'', ''auto'', ''-ss'', py_str start_seconds, ''-i'', temp_output,
      ''-t'', py_str duration,
      ''-c:v'', (if has_nvidia s then ''h264_nvenc'' else ''libx264''),
      ''-preset'', (if has_nvidia s then ''p1'' else ''ultrafast''),
      ''-c:a'', ''aac'', ''-avoid_negative_ts'', ''1'', ''-async'', ''1'', ''-vsync'', ''cfr'',
      ''-max_muxing_queue_size'', ''1024'', ''-y'', output_file]"

text \<open>
  The status message and the output file name of a segment (lines 167 and 176 to 179 of
  the source).
\<close>

definition segment_status :: "nat \<Rightarrow> nat \<Rightarrow> string" where
  "segment_status index total_segments =
     ''Processing segment '' @ str_nat index @ ''/'' @ str_nat total_segments @ ''...''"

definition segment_output_file :: "world \<Rightarrow> string \<Rightarrow> TimeSegment \<Rightarrow> string" where
  "segment_output_file w out segment =
     replace_char (CHR 0x5C) (CHR ''/'')
       (path_join w out
          (''segment_'' @ replace_char (CHR '':'') (CHR ''.'') (start segment)
           @ ''-'' @ replace_char (CHR '':'') (CHR ''.'') (end_ts segment)
           @ ''.mp4''))"

text \<open>
  The body of \<open>process_segment\<close> inside its \<open>try\<close>, then \<open>process_segment\<close> itself, which
  wraps whatever the body raised with the range of the segment.
\<close>

definition segment_body ::
  "world \<Rightarrow> string \<Rightarrow> string \<Rightarrow> TimeSegment \<Rightarrow> nat \<Rightarrow> nat \<Rightarrow> VideoProcessor
     \<Rightarrow> (error + unit) \<times> VideoProcessor" where
  "segment_body w out temp_output segment index total_segments s =
     (let s1 = put_status (segment_status index total_segments) s in
      case convert_timestamp (start segment) of
        Inl err \<Rightarrow> (Inl err, s1)
      | Inr start_seconds \<Rightarrow>
          (case convert_timestamp (end_ts segment) of
             Inl err \<Rightarrow> (Inl err, s1)
           | Inr end_seconds \<Rightarrow>
               (let duration = end_seconds - start_seconds in
                if duration \<le> 0
                then (Inl (InvalidSegmentDuration (start segment) (end_ts segment)), s1)
                else
                  (let output_file = segment_output_file w out segment;
                       cmd = segment_command s temp_output start_seconds duration output_file;
                       s2 = act (Exec cmd) s1
                   in case run_segment w cmd of
                        None \<Rightarrow> (Inl SpawnError, s2)
                      | Some (returncode, stderr) \<Rightarrow>
                          if returncode \<noteq> 0 then (Inl (SegmentRunError stderr), s2)
                          else (Inr (), fold put_progress (segment_ramp index total_segments) s2)))))"

definition process_segment ::
  "world \<Rightarrow> string \<Rightarrow> string \<Rightarrow> TimeSegment \<Rightarrow> nat \<Rightarrow> nat \<Rightarrow> VideoProcessor
     \<Rightarrow> (error + unit) \<times> VideoProcessor" where
  "process_segment w out temp_output segment index total_segments s =
     (case segment_body w out temp_output segment index total_segments s of
        (Inl err, s') \<Rightarrow> (Inl (SegmentError (start segment) (end_ts segment) err), s')
      | (Inr u, s') \<Rightarrow> (Inr u, s'))"

text \<open>The loop over \<open>enumerate(segments, 1)\<close>: it ends at the first segment that raises.\<close>

fun process_segments ::
  "world \<Rightarrow> string \<Rightarrow> string \<Rightarrow> TimeSegment list \<Rightarrow> nat \<Rightarrow> nat \<Rightarrow> VideoProcessor
     \<Rightarrow> (error + unit) \<times> VideoProcessor" where
  "process_segments w out temp_output [] i total_segments s = (Inr (), s)"
| "process_segments w out temp_output (segment # rest) i total_segments s =
     (case process_segment w out temp_output segment i total_segments s of
        (Inl err, s') \<Rightarrow> (Inl err, s')
      | (Inr _, s') \<Rightarrow> process_segments w out temp_output rest (Suc i) total_segments s')"

text \<open>The \<open>try\<close> block of \<open>process_videos\<close>: combine, then the segments.\<close>

definition try_block ::
  "world \<Rightarrow> string \<Rightarrow> string \<Rightarrow> string \<Rightarrow> int \<Rightarrow> int \<Rightarrow> string \<Rightarrow> TimeSegment list
     \<Rightarrow> VideoProcessor \<Rightarrow> (error + unit) \<times> VideoProcessor" where
  "try_block w top_path bottom_path out segment_width segment_height temp_output segments s =
     (let s1 = put_status ''Combining videos...'' s;
          command = combine_command s1 top_path bottom_path segment_width segment_height temp_output;
          s2 = act (Exec command) s1
      in if \<not> popen_ok w then (Inl SpawnError, s2)
         else
           (let s3 = combine_monitor (combine_polls w) 0 s2 in
            if combine_returncode w \<noteq> 0 then (Inl (CombineError (combine_stderr w)), s3)
            else process_segments w out temp_output segments 1 (length segments)
                   (put_progress 30 s3)))"

text \<open>
  The \<open>finally\<close> block: the removal of the temporary file, its failure only printed
  (the printed line without the text of the operating system's error).
\<close>

definition finally_block :: "world \<Rightarrow> string \<Rightarrow> VideoProcessor \<Rightarrow> VideoProcessor" where
  "finally_block w temp_output s =
     (if temp_exists w
      then (if remove_ok w then act (Remove temp_output) s
            else act (Print (''Warning: Could not remove temporary file '' @ temp_output))
                   (act (Remove temp_output) s))
      else s)"

definition audio_ok :: "string \<Rightarrow> bool" where
  "audio_ok a = (\<exists>ext \<in> set [''.mp3'', ''.wav'', ''.m4a'', ''.aac'']. endswith (py_lower a) ext)"

text \<open>
  \<open>VideoProcessor.process_videos\<close>.  The result is \<open>Inr ()\<close> when the call returns and
  \<open>Inl\<close> the exception when it raises.
\<close>

definition process_videos ::
  "world \<Rightarrow> TimeSegment list \<Rightarrow> VideoProcessor \<Rightarrow> (error + unit) \<times> VideoProcessor" where
  "process_videos w segments s =
     (case check_ffmpeg w s of
        (False, s0) \<Rightarrow> (Inr (), s0)
      | (True, s0) \<Rightarrow>
          (case (top_video s0, bottom_video s0, output_dir s0) of
             (Some top_path, Some bottom_path, Some out) \<Rightarrow>
               if top_path = [] \<or> bottom_path = [] \<or> out = [] then (Inl MissingInput, s0)
               else if \<not> endswith top_path ''.mp4'' \<or> \<not> endswith bottom_path ''.mp4''
               then (Inl NotMp4, s0)
               else if truthy (audio_file s0)
                       \<and> \<not> audio_ok (case audio_file s0 of Some a \<Rightarrow> a | None \<Rightarrow> [])
               then (Inl BadAudioFormat, s0)
               else
                 (let s1 = put_status ''Analyzing videos...'' s0 in
                  case probe w top_path of
                    None \<Rightarrow> (Inl ProbeError, s1)
                  | Some (width_top, height_top) \<Rightarrow>
                      (case probe w bottom_path of
                         None \<Rightarrow> (Inl ProbeError, s1)
                       | Some (width_bottom, height_bottom) \<Rightarrow>
                           (let (segment_width, segment_height) =
                                  plan_geometry width_top height_top width_bottom height_bottom;
                                temp_output = replace_char (CHR 0x5C) (CHR ''/'')
                                                (path_join w out ''temp_combined.mp4'');
                                (r, s2) = try_block w top_path bottom_path out segment_width segment_height
                                            temp_output segments s1;
                                r' = (case r of Inl err \<Rightarrow> Inl (ProcessingFailed err)
                                      | Inr u \<Rightarrow> Inr u)
                            in (r', finally_block w temp_output s2))))
           | _ \<Rightarrow> (Inl MissingInput, s0)))"

text \<open>
  The worker of \<open>Application.process_videos\<close> (\<open>process_thread\<close>) and the handler itself:
  what the user is shown after the call of \<open>process_videos\<close> has returned or raised.
\<close>

definition process_thread :: "world \<Rightarrow> TimeSegment list \<Rightarrow> VideoProcessor \<Rightarrow> VideoProcessor" where
  "process_thread w timestamps s =
     (case process_videos w timestamps s of
        (Inr _, s') \<Rightarrow>
          act (Showinfo ''Success'' ''Video processing complete!'') (act (SetStatus ''Complete!'') s')
      | (Inl err, s') \<Rightarrow>
          act (Showerror ''Error'' (Some err)) (act (SetStatus ''Error!'') s'))"

definition Application_process_videos :: "world \<Rightarrow> string \<Rightarrow> VideoProcessor \<Rightarrow> VideoProcessor" where
  "Application_process_videos w text s =
     (case parse_timestamps text of
        Inl err \<Rightarrow> act (SetStatus ''Error!'') (act (Showerror ''Error'' (Some err)) s)
      | Inr timestamps \<Rightarrow> process_thread w timestamps (act (SetStatus ''Starting...'') s))"

text \<open>
  Projections of the trace: the commands of the processes started, the files removed,
  the lines printed.
\<close>

definition spawned :: "VideoProcessor \<Rightarrow> string list list" where
  "spawned s = concat (map (\<lambda>a. case a of Exec c \<Rightarrow> [c] | _ \<Rightarrow> []) (actions s))"

definition removals :: "VideoProcessor \<Rightarrow> string list" where
  "removals s = concat (map (\<lambda>a. case a of Remove p \<Rightarrow> [p] | _ \<Rightarrow> []) (actions s))"

definition printed :: "VideoProcessor \<Rightarrow> string list" where
  "printed s = concat (map (\<lambda>a. case a of Print p \<Rightarrow> [p] | _ \<Rightarrow> []) (actions s))"

text \<open>
  The guards of \<open>process_videos\<close> before its \<open>try\<close> block (lines 68 to 90): a run for
  which they all pass reaches the combining stage.  \<open>temp_output_path\<close> is the path of
  the temporary combined video of that run (line 98).
\<close>

definition validated :: "world \<Rightarrow> VideoProcessor \<Rightarrow> bool" where
  "validated w s =
     (ffmpeg_present w \<and>
      (case (top_video s, bottom_video s, output_dir s) of
         (Some top_path, Some bottom_path, Some out) \<Rightarrow>
           top_path \<noteq> [] \<and> bottom_path \<noteq> [] \<and> out \<noteq> []
           \<and> endswith top_path ''.mp4'' \<and> endswith bottom_path ''.mp4''
           \<and> (truthy (audio_file s)
                \<longrightarrow> audio_ok (case audio_file s of Some a \<Rightarrow> a | None \<Rightarrow> []))
           \<and> probe w top_path \<noteq> None \<and> probe w bottom_path \<noteq> None
       | _ \<Rightarrow> False))"

definition temp_output_path :: "world \<Rightarrow> VideoProcessor \<Rightarrow> string" where
  "temp_output_path w s =
     (case output_dir s of
        Some out \<Rightarrow> replace_char (CHR 0x5C) (CHR ''/'') (path_join w out ''temp_combined.mp4'')
      | None \<Rightarrow> [])"

text \<open>An example job and an example world, used to evaluate the definitions.\<close>

definition example_job :: VideoProcessor where
  "example_job =
     \<lparr>top_video = Some ''top.mp4'', bottom_video = Some ''bottom.mp4'', audio_file = None,
      output_dir = Some ''out'', has_nvidia = False, progress_queue = [], status_queue = [],
      actions = []\<rparr>"

definition posix_join :: "string \<Rightarrow> string \<Rightarrow> string" where
  "posix_join d f = (if endswith d ''/'' then d @ f else d @ ''/'' @ f)"

definition example_world :: world where
  "example_world =
     \<lparr>ffmpeg_present = True, probe = (\<lambda>p. Some (1920, 1080)), path_join = posix_join,
      popen_ok = True, combine_polls = 5, combine_returncode = 0, combine_stderr = [],
      run_segment = (\<lambda>c. Some (0, [])), temp_exists = True, remove_ok = True\<rparr>"

section \<open>Properties of the timestamp functions\<close>

lemma is_digit_facts:
  assumes "is_digit c"
  shows "c \<noteq> CHR '':''" "c \<noteq> CHR ''-''" "c \<noteq> CHR ''+''" "c \<noteq> CHR ''_''" "\<not> py_isspace c"
  using assms by (auto simp: is_digit_def py_isspace_def)

lemma py_strip_no_space:
  assumes "s \<noteq> []" "\<not> py_isspace (hd s)" "\<not> py_isspace (last s)"
  shows "py_strip s = s"
proof -
  have a: "dropWhile py_isspace s = s"
    using assms by (simp add: dropWhile_eq_self_iff)
  have "dropWhile py_isspace (rev s) = rev s"
    using assms by (simp add: dropWhile_eq_self_iff hd_rev)
  then show ?thesis by (simp add: py_strip_def a)
qed

lemma py_int_two_digits:
  assumes "is_digit a" "is_digit b"
  shows "py_int [a, b] = Some (int (digit_val a * 10 + digit_val b))"
proof -
  have "py_strip [a, b] = [a, b]"
    using assms by (intro py_strip_no_space) (simp_all add: is_digit_facts)
  then show ?thesis
    using assms by (simp add: py_int_def py_digits_def is_digit_facts)
qed

lemma split_on_mmss:
  assumes "is_digit a" "is_digit b" "is_digit d" "is_digit e"
  shows "split_on CHR '':'' [a, b, CHR '':'', d, e] = [[a, b], [d, e]]"
  using assms by (simp add: is_digit_facts)

lemma digit_val_less: "is_digit c \<Longrightarrow> digit_val c < 10"
  by (auto simp: is_digit_def digit_val_def)

lemma convert_timestamp_mmss:
  assumes "is_digit a" "is_digit b" "is_digit d" "is_digit e"
    and "digit_val d * 10 + digit_val e < 60"
  shows "convert_timestamp [a, b, CHR '':'', d, e]
         = Inr (int ((digit_val a * 10 + digit_val b) * 60 + (digit_val d * 10 + digit_val e)))"
  using assms
  by (simp add: convert_timestamp_def is_digit_facts py_int_two_digits)

lemma digit_char_digit: "k < 10 \<Longrightarrow> is_digit (digit_char k) \<and> digit_val (digit_char k) = k"
  by (simp add: is_digit_def digit_val_def digit_char_def)

lemma digit_char_val: "is_digit c \<Longrightarrow> digit_char (digit_val c) = c"
  by (simp add: is_digit_def digit_val_def digit_char_def)


lemma valid_mmss_cases:
  assumes "valid_mmss t"
  obtains a b d e where "t = [a, b, CHR '':'', d, e]" "is_digit a" "is_digit b" "is_digit d"
    "is_digit e" "digit_val d * 10 + digit_val e < 60"
  using assms unfolding valid_mmss_def
  by (auto split: list.splits)

lemma convert_format:
  assumes "0 \<le> n" "n < 6000"
  shows "valid_mmss (format_mmss n) \<and> convert_timestamp (format_mmss n) = Inr n"
proof -
  define m where "m = nat n div 60"
  define s where "s = nat n mod 60"
  have m: "m < 100" and s: "s < 60" using assms by (auto simp: m_def s_def)
  have n: "n = int (m * 60 + s)" using assms by (simp add: m_def s_def)
  have f: "format_mmss n = [digit_char (m div 10), digit_char (m mod 10), CHR '':'',
          digit_char (s div 10), digit_char (s mod 10)]"
    by (simp add: format_mmss_def m_def s_def Let_def)
  have d: "m div 10 < 10" "m mod 10 < 10" "s div 10 < 10" "s mod 10 < 10"
    using m s by auto
  have v: "valid_mmss (format_mmss n)"
    using d s by (simp add: f valid_mmss_def digit_char_digit)
  have "convert_timestamp (format_mmss n) = Inr (int ((m div 10 * 10 + m mod 10) * 60 + (s div 10 * 10 + s mod 10)))"
    unfolding f using d s by (subst convert_timestamp_mmss) (simp_all add: digit_char_digit)
  then show ?thesis using v n by simp
qed

lemma format_convert:
  assumes "valid_mmss t"
  shows "\<exists>n. convert_timestamp t = Inr n \<and> 0 \<le> n \<and> n < 6000 \<and> format_mmss n = t"
proof -
  from assms obtain a b d e where t: "t = [a, b, CHR '':'', d, e]"
    and dg: "is_digit a" "is_digit b" "is_digit d" "is_digit e"
    and lt: "digit_val d * 10 + digit_val e < 60"
    by (rule valid_mmss_cases)
  define m where "m = digit_val a * 10 + digit_val b"
  define s where "s = digit_val d * 10 + digit_val e"
  define k where "k = m * 60 + s"
  have c: "convert_timestamp t = Inr (int k)"
    unfolding t k_def m_def s_def using dg lt by (rule convert_timestamp_mmss)
  have b: "digit_val a < 10" "digit_val b < 10" "digit_val d < 10" "digit_val e < 10"
    using dg by (simp_all add: digit_val_less)
  have m: "m < 100" "m div 10 = digit_val a" "m mod 10 = digit_val b"
    using b by (auto simp: m_def)
  have s: "s < 60" "s div 10 = digit_val d" "s mod 10 = digit_val e"
    using b lt by (auto simp: s_def)
  have q: "k div 60 = m" "k mod 60 = s" using s(1) by (auto simp: k_def)
  have "format_mmss (int k) = t"
    using dg by (simp add: format_mmss_def Let_def q m s t digit_char_val)
  moreover have "int k < 6000" using m(1) s(1) by (simp add: k_def)
  ultimately show ?thesis using c by simp
qed

text \<open>
  Claim C4, as amended.  On the valid \<open>MM:SS\<close> texts \<open>convert_timestamp\<close> is a bijection
  onto the integers from 0 to 5999, that is the non-negative integers below 6000
  (\<open>99*60+59 = 5999\<close>); formatting such an integer and parsing it again gives the integer
  back, and parsing a valid text and formatting the result gives the text back.
\<close>

theorem convert_timestamp_bijection:
  "bij_betw convert_timestamp {t. valid_mmss t} (Inr ` {0..<6000})
   \<and> (\<forall>n \<in> {0..<6000}. valid_mmss (format_mmss n) \<and> convert_timestamp (format_mmss n) = Inr n)
   \<and> (\<forall>t n. valid_mmss t \<and> convert_timestamp t = Inr n \<longrightarrow> format_mmss n = t)"
proof (intro conjI)
  show "bij_betw convert_timestamp {t. valid_mmss t} (Inr ` {0..<6000})"
    unfolding bij_betw_def
  proof
    show "inj_on convert_timestamp {t. valid_mmss t}"
    proof (rule inj_onI)
      fix x y assume "x \<in> {t. valid_mmss t}" "y \<in> {t. valid_mmss t}"
        and eq: "convert_timestamp x = convert_timestamp y"
      then obtain n k where "convert_timestamp x = Inr n" "format_mmss n = x"
        "convert_timestamp y = Inr k" "format_mmss k = y"
        using format_convert by (metis mem_Collect_eq)
      then show "x = y" using eq by simp
    qed
    show "convert_timestamp ` {t. valid_mmss t} = Inr ` {0..<6000}"
    proof (rule set_eqI, rule iffI)
      fix r assume "r \<in> convert_timestamp ` {t. valid_mmss t}"
      then obtain t where "valid_mmss t" "r = convert_timestamp t" by auto
      then show "r \<in> Inr ` {0..<6000}" using format_convert [of t] by auto
    next
      fix r :: "error + int" assume "r \<in> Inr ` {0..<6000}"
      then obtain n where "0 \<le> n" "n < 6000" "r = Inr n" by auto
      then show "r \<in> convert_timestamp ` {t. valid_mmss t}"
        using convert_format [of n] by (metis image_eqI mem_Collect_eq)
    qed
  qed
  show "\<forall>n \<in> {0..<6000}. valid_mmss (format_mmss n) \<and> convert_timestamp (format_mmss n) = Inr n"
    using convert_format by simp
  show "\<forall>t n. valid_mmss t \<and> convert_timestamp t = Inr n \<longrightarrow> format_mmss n = t"
    using format_convert by fastforce
qed

text \<open>The round trip of C4 at 5999, the largest value.\<close>

theorem convert_timestamp_bijection_witness:
  "valid_mmss (format_mmss 5999) \<and> convert_timestamp (format_mmss 5999) = Inr 5999"
  using convert_timestamp_bijection by simp

text \<open>
  Claim C4 as stated fails: the valid text \<open>99:59\<close> is converted to 5999, which is not
  below 4000.
\<close>

theorem convert_timestamp_range_counterexample:
  "valid_mmss ''99:59'' \<and> convert_timestamp ''99:59'' \<notin> Inr ` {0..<4000}"
  by (simp add: valid_mmss_def convert_timestamp_def py_int_def py_strip_def py_isspace_def
      py_digits_def is_digit_def digit_val_def image_iff)



section \<open>Geometry\<close>

lemma py_trunc_ninths:
  "py_trunc (of_int h * 9 / 8) = (if 0 \<le> h then (h * 9) div 8 else - ((- h * 9) div 8))"
proof (cases "0 \<le> h")
  case True
  have "\<lfloor>(of_int (h * 9) :: rat) / of_int 8\<rfloor> = (h * 9) div 8"
    by (rule floor_divide_of_int_eq)
  moreover have "(0::rat) \<le> of_int h * 9 / 8" using True by simp
  ultimately show ?thesis using True by (simp add: py_trunc_def)
next
  case False
  have "\<lfloor>(of_int (- h * 9) :: rat) / of_int 8\<rfloor> = (- h * 9) div 8"
    by (rule floor_divide_of_int_eq)
  then have "\<lceil>(of_int h :: rat) * 9 / 8\<rceil> = - ((- h * 9) div 8)"
    by (simp add: ceiling_def)
  moreover have "\<not> (0::rat) \<le> of_int h * 9 / 8" using False by simp
  ultimately show ?thesis using False by (simp add: py_trunc_def)
qed

text \<open>
  Claim C5.  For all four probed integers the planned height is
  \<open>min(height_top, height_bottom) // 2\<close>, Python's \<open>//\<close> being \<open>div\<close> on \<open>int\<close>; for
  heights that are not negative this is the truncating quotient.  The planned width is
  the truncation towards zero of \<open>segment_height * 9 / 8\<close>, given also in integer
  arithmetic.  \<open>plan_geometry\<close> is a function of its four arguments, so equal inputs
  give equal results.  (The source divides in floating point; the quotient by 8 is
  exact for every height below \<open>2^53 / 9\<close>.)
\<close>

theorem plan_geometry_dimensions:
  "snd (plan_geometry width_top height_top width_bottom height_bottom)
     = min height_top height_bottom div 2
   \<and> (0 \<le> min height_top height_bottom \<longrightarrow>
        snd (plan_geometry width_top height_top width_bottom height_bottom)
          = trunc_quot (min height_top height_bottom) 2)
   \<and> fst (plan_geometry width_top height_top width_bottom height_bottom)
     = py_trunc (of_int (min height_top height_bottom div 2) * 9 / 8)
   \<and> fst (plan_geometry width_top height_top width_bottom height_bottom)
     = (let h = min height_top height_bottom div 2
        in if 0 \<le> h then (h * 9) div 8 else - ((- h * 9) div 8))"
proof -
  have "min height_top height_bottom div 2 = trunc_quot (min height_top height_bottom) 2"
    if "0 \<le> min height_top height_bottom"
  proof (cases "min height_top height_bottom = 0")
    case True
    then show ?thesis by (simp add: trunc_quot_def)
  next
    case False
    then have "0 < min height_top height_bottom" using that by linarith
    then have "sgn (min height_top height_bottom) = 1" "\<bar>min height_top height_bottom\<bar> = min height_top height_bottom"
      by simp_all
    then show ?thesis unfolding trunc_quot_def by simp
  qed
  then show ?thesis
    by (simp add: plan_geometry_def Let_def py_trunc_ninths)
qed

text \<open>
  C5 at two inputs of height 1080: the plan is 607 by 540.
\<close>

theorem plan_geometry_dimensions_witness:
  "(0::int) \<le> min 1080 1080 \<and> plan_geometry 1920 1080 1920 1080 = (607, 540)
   \<and> trunc_quot (min 1080 1080) 2 = 540"
  using plan_geometry_dimensions [of 1920 1080 1920 1080]
  by (simp add: prod_eq_iff Let_def)

section \<open>Validation of the file extensions\<close>









section \<open>Parsing of the range lines\<close>

text \<open>
  Claim C3 at the line \<open>00:00-00:30xyz\<close>.  The line does not match the pattern in its
  entirety, yet \<open>parse_timestamps\<close> accepts it and returns the range \<open>00:00-00:30\<close>:
  \<open>pattern.match\<close> anchors the pattern at the start of the line only.
\<close>

theorem parse_timestamps_trailing_text:
  "parse_timestamps ''00:00-00:30xyz'' = Inr [\<lparr>start = ''00:00'', end_ts = ''00:30''\<rparr>]"
  by (simp add: parse_timestamps_def pattern_match_def matches_mmss_def py_strip_def py_isspace_def
      convert_timestamp_def py_int_def py_digits_def is_digit_def digit_val_def)

text \<open>Hence no format error is raised for that line.\<close>

theorem parse_timestamps_trailing_text_witness:
  "parse_timestamps ''00:00-00:30xyz'' \<noteq> Inl (InvalidTimestampFormat ''00:00-00:30xyz'')"
  using parse_timestamps_trailing_text by simp

section \<open>The queues and the trace\<close>

lemma put_progress_fields [simp]:
  "progress_queue (put_progress v s) = progress_queue s @ [v]"
  "status_queue (put_progress v s) = status_queue s"
  "actions (put_progress v s) = actions s"
  "has_nvidia (put_progress v s) = has_nvidia s"
  by (simp_all add: put_progress_def)

lemma put_status_fields [simp]:
  "progress_queue (put_status m s) = progress_queue s"
  "status_queue (put_status m s) = status_queue s @ [m]"
  "actions (put_status m s) = actions s"
  "has_nvidia (put_status m s) = has_nvidia s"
  by (simp_all add: put_status_def)

lemma act_fields [simp]:
  "progress_queue (act a s) = progress_queue s"
  "status_queue (act a s) = status_queue s"
  "actions (act a s) = actions s @ [a]"
  "has_nvidia (act a s) = has_nvidia s"
  by (simp_all add: act_def)

lemma fold_put_progress [simp]:
  "progress_queue (fold put_progress vs s) = progress_queue s @ vs"
  "status_queue (fold put_progress vs s) = status_queue s"
  "actions (fold put_progress vs s) = actions s"
  by (induction vs arbitrary: s) simp_all

section \<open>The progress ramp of a segment\<close>





section \<open>The segment loop\<close>

lemma spawned_simps [simp]:
  "spawned (put_progress v s) = spawned s"
  "spawned (put_status m s) = spawned s"
  "spawned (act (Exec c) s) = spawned s @ [c]"
  "spawned (act (Remove p) s) = spawned s"
  "spawned (act (Print p) s) = spawned s"
  "spawned (fold put_progress vs s) = spawned s"
  by (simp_all add: spawned_def)

lemma removals_simps [simp]:
  "removals (put_progress v s) = removals s"
  "removals (put_status m s) = removals s"
  "removals (act (Exec c) s) = removals s"
  "removals (act (Remove p) s) = removals s @ [p]"
  "removals (act (Print p) s) = removals s"
  "removals (fold put_progress vs s) = removals s"
  by (simp_all add: removals_def)

lemma printed_simps [simp]:
  "printed (put_progress v s) = printed s"
  "printed (put_status m s) = printed s"
  "printed (act (Exec c) s) = printed s"
  "printed (act (Remove p) s) = printed s"
  "printed (act (Print p) s) = printed s @ [p]"
  "printed (fold put_progress vs s) = printed s"
  by (simp_all add: printed_def)

lemma combine_monitor_fields [simp]:
  "actions (combine_monitor n p s) = actions s"
  "status_queue (combine_monitor n p s) = status_queue s"
  "has_nvidia (combine_monitor n p s) = has_nvidia s"
  by (induction n arbitrary: p s) simp_all

lemma combine_monitor_trace [simp]:
  "spawned (combine_monitor n p s) = spawned s"
  "removals (combine_monitor n p s) = removals s"
  "printed (combine_monitor n p s) = printed s"
  by (simp_all add: spawned_def removals_def printed_def)

lemma process_segment_invalid_duration:
  assumes "convert_timestamp (start segment) = Inr s0" "convert_timestamp (end_ts segment) = Inr e0"
    "e0 \<le> s0"
  shows "process_segment w out temp_output segment index total_segments s
         = (Inl (SegmentError (start segment) (end_ts segment)
                  (InvalidSegmentDuration (start segment) (end_ts segment))),
            put_status (segment_status index total_segments) s)"
  using assms by (simp add: process_segment_def segment_body_def)

lemma process_segment_ok:
  assumes "convert_timestamp (start segment) = Inr a" "convert_timestamp (end_ts segment) = Inr b"
    "a < b" "\<forall>c. \<exists>e. run_segment w c = Some (0, e)"
  shows "\<exists>s'. process_segment w out temp_output segment index total_segments s = (Inr (), s')
              \<and> length (spawned s') = Suc (length (spawned s))"
proof -
  let ?s1 = "put_status (segment_status index total_segments) s"
  let ?f = "segment_output_file w out segment"
  let ?cmd = "segment_command s temp_output a (b - a) ?f"
  obtain e where e: "run_segment w ?cmd = Some (0, e)" using assms(4) by blast
  show ?thesis
    using assms(1-3) e by (simp add: process_segment_def segment_body_def Let_def)
qed

lemma process_segments_append:
  "process_segments w out temp_output (xs @ ys) i n s =
     (case process_segments w out temp_output xs i n s of
        (Inl err, s') \<Rightarrow> (Inl err, s')
      | (Inr u, s') \<Rightarrow> process_segments w out temp_output ys (i + length xs) n s')"
  by (induction xs arbitrary: i s) (auto split: prod.splits sum.splits)

lemma process_segments_all_ok:
  assumes "\<forall>c. \<exists>e. run_segment w c = Some (0, e)"
    "\<forall>p \<in> set pre. \<exists>a b. convert_timestamp (start p) = Inr a
                         \<and> convert_timestamp (end_ts p) = Inr b \<and> a < b"
  shows "\<exists>s1. process_segments w out temp_output pre i n s = (Inr (), s1)
              \<and> length (spawned s1) = length (spawned s) + length pre"
  using assms(2)
proof (induction pre arbitrary: i s)
  case Nil
  then show ?case by simp
next
  case (Cons p pre)
  then obtain a b where "convert_timestamp (start p) = Inr a"
    "convert_timestamp (end_ts p) = Inr b" "a < b" by auto
  then obtain s' where s': "process_segment w out temp_output p i n s = (Inr (), s')"
    "length (spawned s') = Suc (length (spawned s))"
    using process_segment_ok [OF _ _ _ assms(1)] by blast
  from Cons obtain s1 where "process_segments w out temp_output pre (Suc i) n s' = (Inr (), s1)"
    "length (spawned s1) = length (spawned s') + length pre"
    by (metis list.set_intros(2))
  then show ?case using s' by simp
qed


section \<open>The run as a whole\<close>

lemma job_fields [simp]:
  "top_video (put_progress v s) = top_video s" "bottom_video (put_progress v s) = bottom_video s"
  "audio_file (put_progress v s) = audio_file s" "output_dir (put_progress v s) = output_dir s"
  "top_video (put_status m s) = top_video s" "bottom_video (put_status m s) = bottom_video s"
  "audio_file (put_status m s) = audio_file s" "output_dir (put_status m s) = output_dir s"
  "top_video (act a s) = top_video s" "bottom_video (act a s) = bottom_video s"
  "audio_file (act a s) = audio_file s" "output_dir (act a s) = output_dir s"
  by (simp_all add: put_progress_def put_status_def act_def)







lemma process_videos_validated:
  assumes "validated w s"
  shows "\<exists>top_path bottom_path out sw sh.
           output_dir s = Some out \<and>
           process_videos w segments s =
             (case try_block w top_path bottom_path out sw sh (temp_output_path w s) segments
                     (put_status ''Analyzing videos...'' (act (Exec [''ffmpeg'', ''-version'']) s)) of
                (r, s2) \<Rightarrow>
                  ((case r of Inl err \<Rightarrow> Inl (ProcessingFailed err) | Inr u \<Rightarrow> Inr u),
                   finally_block w (temp_output_path w s) s2))"
proof -
  from assms obtain t b out where f: "top_video s = Some t" "bottom_video s = Some b"
    "output_dir s = Some out"
    by (auto simp: validated_def split: option.splits)
  from assms f obtain wt ht wb hb where pr: "probe w t = Some (wt, ht)" "probe w b = Some (wb, hb)"
    by (auto simp: validated_def)
  obtain sw sh where g: "plan_geometry wt ht wb hb = (sw, sh)"
    by (cases "plan_geometry wt ht wb hb")
  have "process_videos w segments s =
          (case try_block w t b out sw sh (temp_output_path w s) segments
                  (put_status ''Analyzing videos...'' (act (Exec [''ffmpeg'', ''-version'']) s)) of
             (r, s2) \<Rightarrow>
               ((case r of Inl err \<Rightarrow> Inl (ProcessingFailed err) | Inr u \<Rightarrow> Inr u),
                finally_block w (temp_output_path w s) s2))"
    using assms f pr g
    by (auto simp: validated_def process_videos_def check_ffmpeg_def temp_output_path_def Let_def)
  then show ?thesis using f by blast
qed


lemma finally_block_fields [simp]:
  "progress_queue (finally_block w t s) = progress_queue s"
  "status_queue (finally_block w t s) = status_queue s"
  "spawned (finally_block w t s) = spawned s"
  by (simp_all add: finally_block_def)


text \<open>
  Claim C7.  Let a segment have an end that is not after its start.  In the loop over the
  segments, once the segments before it have succeeded, it fails with the error of line
  174 wrapped with its range (line 215); the state after it is the state before it with
  only the status message added, so that no process is started and no file is written
  for it, and the segments after it are not looked at.  For a run that reaches the
  combining stage, whose combine step and earlier segments succeed, the run fails with
  that error (wrapped once more at line 223), and the processes it has started are the
  version query, the combine process and one extraction for each earlier segment.
\<close>

theorem invalid_duration_fails_run:
  assumes "convert_timestamp (start segment) = Inr s0"
    "convert_timestamp (end_ts segment) = Inr e0" "e0 \<le> s0"
  shows "(\<forall>i n st st1.
            process_segments w out temp_output pre i n st = (Inr (), st1) \<longrightarrow>
            process_segments w out temp_output (pre @ segment # post) i n st
              = (Inl (SegmentError (start segment) (end_ts segment)
                       (InvalidSegmentDuration (start segment) (end_ts segment))),
                 put_status (segment_status (i + length pre) n) st1))
       \<and> (validated w s \<and> popen_ok w \<and> combine_returncode w = 0
            \<and> (\<forall>c. \<exists>e. run_segment w c = Some (0, e))
            \<and> (\<forall>p \<in> set pre. \<exists>a b. convert_timestamp (start p) = Inr a
                                   \<and> convert_timestamp (end_ts p) = Inr b \<and> a < b) \<longrightarrow>
            fst (process_videos w (pre @ segment # post) s)
              = Inl (ProcessingFailed
                       (SegmentError (start segment) (end_ts segment)
                          (InvalidSegmentDuration (start segment) (end_ts segment))))
            \<and> length (spawned (snd (process_videos w (pre @ segment # post) s)))
                = length (spawned s) + 2 + length pre)"
proof (intro conjI allI impI)
  fix i n st st1
  assume "process_segments w out temp_output pre i n st = (Inr (), st1)"
  then show "process_segments w out temp_output (pre @ segment # post) i n st
              = (Inl (SegmentError (start segment) (end_ts segment)
                       (InvalidSegmentDuration (start segment) (end_ts segment))),
                 put_status (segment_status (i + length pre) n) st1)"
    using process_segment_invalid_duration [OF assms]
    by (simp add: process_segments_append)
next
  let ?segs = "pre @ segment # post"
  let ?err = "SegmentError (start segment) (end_ts segment)
                (InvalidSegmentDuration (start segment) (end_ts segment))"
  assume h: "validated w s \<and> popen_ok w \<and> combine_returncode w = 0
            \<and> (\<forall>c. \<exists>e. run_segment w c = Some (0, e))
            \<and> (\<forall>p \<in> set pre. \<exists>a b. convert_timestamp (start p) = Inr a
                                   \<and> convert_timestamp (end_ts p) = Inr b \<and> a < b)"
  then obtain t b out sw sh where
    pv: "process_videos w ?segs s =
           (case try_block w t b out sw sh (temp_output_path w s) ?segs
                   (put_status ''Analyzing videos...'' (act (Exec [''ffmpeg'', ''-version'']) s)) of
              (r, s2) \<Rightarrow>
                ((case r of Inl err \<Rightarrow> Inl (ProcessingFailed err) | Inr u \<Rightarrow> Inr u),
                 finally_block w (temp_output_path w s) s2))"
    using process_videos_validated [of w s ?segs] by blast
  let ?s0 = "put_status ''Analyzing videos...'' (act (Exec [''ffmpeg'', ''-version'']) s)"
  let ?s1 = "put_status ''Combining videos...'' ?s0"
  let ?s2 = "act (Exec (combine_command ?s1 t b sw sh (temp_output_path w s))) ?s1"
  let ?s3 = "put_progress 30 (combine_monitor (combine_polls w) 0 ?s2)"
  have tb: "try_block w t b out sw sh (temp_output_path w s) ?segs ?s0
            = process_segments w out (temp_output_path w s) ?segs 1 (length ?segs) ?s3"
    using h by (simp add: try_block_def Let_def)
  obtain s4 where s4: "process_segments w out (temp_output_path w s) pre 1 (length ?segs) ?s3 = (Inr (), s4)"
    "length (spawned s4) = length (spawned ?s3) + length pre"
    using process_segments_all_ok [of w pre out "temp_output_path w s" 1 "length ?segs" ?s3] h
    by blast
  have "process_segments w out (temp_output_path w s) ?segs 1 (length ?segs) ?s3
        = (Inl ?err, put_status (segment_status (1 + length pre) (length ?segs)) s4)"
    using s4(1) process_segment_invalid_duration [OF assms]
    by (simp add: process_segments_append)
  then have "process_videos w ?segs s
             = (Inl (ProcessingFailed ?err),
                finally_block w (temp_output_path w s)
                  (put_status (segment_status (1 + length pre) (length ?segs)) s4))"
    using pv tb by simp
  moreover have "length (spawned ?s3) = length (spawned s) + 2" by simp
  ultimately show "fst (process_videos w ?segs s) = Inl (ProcessingFailed ?err)"
    and "length (spawned (snd (process_videos w ?segs s))) = length (spawned s) + 2 + length pre"
    using s4(2) by simp_all
qed



lemma example_validated: "validated example_world example_job"
  by (simp add: validated_def example_world_def example_job_def endswith_def truthy_def)

lemma example_timestamps:
  "convert_timestamp ''00:00'' = Inr 0" "convert_timestamp ''00:30'' = Inr 30"
  "convert_timestamp ''00:10'' = Inr 10"
  by code_simp+


text \<open>
  C7 on three segments of which the second, \<open>00:30-00:10\<close>, ends before it starts: the
  run fails naming it, after three processes (version query, combine, first segment).
\<close>

theorem invalid_duration_fails_run_witness:
  "fst (process_videos example_world
          [\<lparr>start = ''00:00'', end_ts = ''00:30''\<rparr>, \<lparr>start = ''00:30'', end_ts = ''00:10''\<rparr>,
           \<lparr>start = ''01:00'', end_ts = ''01:30''\<rparr>] example_job)
     = Inl (ProcessingFailed
              (SegmentError ''00:30'' ''00:10'' (InvalidSegmentDuration ''00:30'' ''00:10'')))
   \<and> length (spawned (snd (process_videos example_world
          [\<lparr>start = ''00:00'', end_ts = ''00:30''\<rparr>, \<lparr>start = ''00:30'', end_ts = ''00:10''\<rparr>,
           \<lparr>start = ''01:00'', end_ts = ''01:30''\<rparr>] example_job))) = 3"
proof -
  have r: "\<forall>c. \<exists>e. run_segment example_world c = Some (0, e)"
    by (simp add: example_world_def)
  have p: "popen_ok example_world" "combine_returncode example_world = 0"
    by (simp_all add: example_world_def)
  have s: "spawned example_job = []" by (simp add: spawned_def example_job_def)
  show ?thesis
    using invalid_duration_fails_run
      [where segment = "\<lparr>start = ''00:30'', end_ts = ''00:10''\<rparr>" and ?s0.0 = 30 and ?e0.0 = 10
         and w = example_world and s = example_job
         and pre = "[\<lparr>start = ''00:00'', end_ts = ''00:30''\<rparr>]"
         and post = "[\<lparr>start = ''01:00'', end_ts = ''01:30''\<rparr>]"]
      example_validated example_timestamps r p s
    by simp
qed


section \<open>The missing tool\<close>

lemma process_videos_without_ffmpeg:
  assumes "\<not> ffmpeg_present w"
  shows "process_videos w segments s
         = (Inr (), act (Showerror ''FFmpeg Not Found'' None) (act (Exec [''ffmpeg'', ''-version'']) s))"
  using assms by (simp add: process_videos_def check_ffmpeg_def)

text \<open>
  Claim C6 at a world without the tool.  \<open>process_videos\<close> returns without raising, and
  the worker that called it sets the status to \<open>Complete!\<close> and shows the success dialog,
  after the dialog of \<open>check_ffmpeg\<close>: the caller gets no error.
\<close>

theorem missing_ffmpeg_reported_as_success:
  "fst (process_videos (example_world\<lparr>ffmpeg_present := False\<rparr>)
          [\<lparr>start = ''00:00'', end_ts = ''00:30''\<rparr>] example_job) = Inr ()
   \<and> actions (process_thread (example_world\<lparr>ffmpeg_present := False\<rparr>)
          [\<lparr>start = ''00:00'', end_ts = ''00:30''\<rparr>] example_job)
     = [Exec [''ffmpeg'', ''-version''], Showerror ''FFmpeg Not Found'' None,
        SetStatus ''Complete!'', Showinfo ''Success'' ''Video processing complete!'']"
  by (simp add: process_thread_def process_videos_without_ffmpeg example_job_def)

text \<open>Hence the call raises nothing in that world.\<close>

theorem missing_ffmpeg_reported_as_success_witness:
  "\<not> isl (fst (process_videos (example_world\<lparr>ffmpeg_present := False\<rparr>)
                 [\<lparr>start = ''00:00'', end_ts = ''00:30''\<rparr>] example_job))"
  using missing_ffmpeg_reported_as_success by simp

section \<open>The progress queue of a run\<close>

lemma combine_monitor_queue:
  assumes "j \<le> 980"
  shows "progress_queue (combine_monitor n (of_nat j / 10) s)
         = progress_queue s @ map (\<lambda>k. of_nat k / 10) [Suc j ..< Suc (min (j + n) 980)]"
  using assms
proof (induction n arbitrary: j s)
  case 0
  then show ?case by simp
next
  case (Suc n)
  show ?case
  proof (cases "j < 980")
    case True
    then have lt: "(of_nat j :: rat) / 10 < 98" by simp
    have nx: "(of_nat j :: rat) / 10 + 1 / 10 = of_nat (Suc j) / 10" by simp
    have "progress_queue (combine_monitor (Suc n) (of_nat j / 10) s)
          = progress_queue (combine_monitor n (of_nat (Suc j) / 10) (put_progress (of_nat (Suc j) / 10) s))"
      using lt by (simp only: combine_monitor.simps nx if_True)
    also have "\<dots> = (progress_queue s @ [of_nat (Suc j) / 10])
                   @ map (\<lambda>k. of_nat k / 10) [Suc (Suc j) ..< Suc (min (Suc j + n) 980)]"
      using True by (subst Suc.IH) simp_all
    also have "\<dots> = progress_queue s
                   @ map (\<lambda>k. of_nat k / 10) [Suc j ..< Suc (min (j + Suc n) 980)]"
      using True by (simp add: upt_conv_Cons del: upt_Suc)
    finally show ?thesis .
  next
    case False
    then have j: "j = 980" using Suc.prems by simp
    then show ?thesis by simp
  qed
qed






section \<open>What line parsing does guarantee\<close>

text \<open>
  The fields of \<open>split\<close>; the loop over the lines; a line that, once trimmed, is not
  empty and does not start with the pattern fails the parse, with the format error
  naming it when the lines before it were accepted; blank lines are skipped; a text
  with blank lines only gives \<open>NoTimestampsProvided\<close>; and text after a matching prefix
  never changes the match.
\<close>

lemma split_on_length: "length (split_on c s) = Suc (count_list s c)"
  by (induction s) (auto split: list.splits)

lemma split_on_nonempty: "split_on c s \<noteq> []"
  by (induction s) (auto split: list.splits)

lemma split_on_no_sep: "c \<notin> set s \<Longrightarrow> split_on c s = [s]"
  by (induction s) auto

lemma parse_lines_append:
  "parse_lines (xs @ ys) ts =
     (case parse_lines xs ts of Inl err \<Rightarrow> Inl err | Inr ts' \<Rightarrow> parse_lines ys ts')"
  by (induction xs ts rule: parse_lines.induct)
     (auto simp: Let_def split: option.splits sum.splits prod.splits)

lemma parse_lines_unmatched:
  assumes "parse_lines pre ts = Inr ts'" "py_strip l \<noteq> []" "pattern_match (py_strip l) = None"
  shows "parse_lines (pre @ l # post) ts = Inl (InvalidTimestampFormat (py_strip l))"
  using assms by (simp add: parse_lines_append)

lemma parse_lines_fails:
  assumes "l \<in> set ls" "py_strip l \<noteq> []" "pattern_match (py_strip l) = None"
  shows "\<exists>err. parse_lines ls ts = Inl err"
  using assms(1)
proof (induction ls ts rule: parse_lines.induct)
  case (1 ts)
  then show ?case by simp
next
  case (2 x xs ts)
  show ?case
  proof (cases "l = x")
    case True
    then show ?thesis using assms(2,3) by simp
  next
    case False
    then have "l \<in> set xs" using "2.prems" by simp
    then show ?thesis
      using "2.IH" by (auto simp: Let_def split: option.splits sum.splits prod.splits)
  qed
qed

lemma parse_lines_blank:
  assumes "\<forall>l \<in> set ls. py_strip l = []"
  shows "parse_lines ls ts = Inr ts"
  using assms by (induction ls) simp_all

lemma parse_lines_skips_blank:
  "parse_lines (filter (\<lambda>l. py_strip l \<noteq> []) ls) ts = parse_lines ls ts"
  by (induction ls ts rule: parse_lines.induct)
     (auto simp: Let_def split: option.splits sum.splits prod.splits)

lemma parse_timestamps_unmatched:
  assumes "split_on (CHR 0x0A) text = pre @ l # post" "parse_lines pre [] = Inr ts'"
    "py_strip l \<noteq> []" "pattern_match (py_strip l) = None"
  shows "parse_timestamps text = Inl (InvalidTimestampFormat (py_strip l))"
  using parse_lines_unmatched [OF assms(2-4)] assms(1) by (simp add: parse_timestamps_def)

lemma parse_timestamps_fails:
  assumes "l \<in> set (split_on (CHR 0x0A) text)" "py_strip l \<noteq> []"
    "pattern_match (py_strip l) = None"
  shows "\<exists>err. parse_timestamps text = Inl err"
  using parse_lines_fails [OF assms, of "[]"] by (auto simp: parse_timestamps_def)

lemma parse_timestamps_no_lines:
  assumes "\<forall>l \<in> set (split_on (CHR 0x0A) text). py_strip l = []"
  shows "parse_timestamps text = Inl NoTimestampsProvided"
  using parse_lines_blank [OF assms, of "[]"] by (simp add: parse_timestamps_def)

lemma pattern_match_prefix:
  assumes "pattern_match line = Some (a, b)"
  shows "pattern_match (line @ extra) = Some (a, b)"
  using assms by (auto simp: pattern_match_def nth_append split: if_splits)

section \<open>What the progress queue does guarantee\<close>

text \<open>
  For a run that starts with an empty progress queue: every value put on the queue lies
  between 0 and 100; the values are in non-decreasing order whenever the combine
  process is found running by at most 300 polls; and a run that returns normally, with
  at least one segment, ends on the value 100.
\<close>

lemma segment_ramp_form:
  assumes "0 < n"
  shows "segment_ramp i n
         = map (\<lambda>k. span_start i n + of_nat k * (7 / of_nat n)) [0..<10] @ [span_end i n]"
proof -
  have pos: "(0::rat) < of_nat n" using assms by simp
  have a: "30 + ((of_nat i - 1) / of_nat n * 70) = span_start i n" by (simp add: span_start_def)
  have b: "30 + (of_nat i / of_nat n * 70) = span_end i n" by (simp add: span_end_def)
  have c: "(span_end i n - span_start i n) / 10 = 7 / of_nat n"
    using pos by (simp add: span_start_def span_end_def field_simps)
  show ?thesis by (simp only: segment_ramp_def Let_def a b c)
qed

lemma span_end_step:
  assumes "0 < n"
  shows "span_end i n = span_start i n + 10 * (7 / of_nat n)"
    and "span_start (Suc i) n = span_end i n"
  using assms by (simp_all add: span_start_def span_end_def field_simps)

lemma segment_ramp_range:
  assumes "0 < n" "v \<in> set (segment_ramp i n)"
  shows "span_start i n \<le> v \<and> v \<le> span_end i n"
proof -
  define d :: rat where "d = 7 / of_nat n"
  have d: "0 < d" using assms(1) by (simp add: d_def)
  have e: "span_end i n = span_start i n + 10 * d"
    using span_end_step(1) [OF assms(1)] by (simp add: d_def)
  from assms(2) consider "v = span_end i n" | k where "k < 10" "v = span_start i n + of_nat k * d"
    unfolding segment_ramp_form [OF assms(1)] d_def by auto
  then show ?thesis
  proof cases
    case 1
    then show ?thesis using d e by simp
  next
    case 2
    have "(of_nat k :: rat) * d \<le> 10 * d" using 2(1) d by (intro mult_right_mono) simp_all
    moreover have "0 \<le> (of_nat k :: rat) * d" using d by simp
    ultimately show ?thesis using 2(2) e by linarith
  qed
qed

lemma segment_ramp_sorted:
  assumes "0 < n"
  shows "sorted (segment_ramp i n)"
proof -
  define d :: rat where "d = 7 / of_nat n"
  have d: "0 < d" using assms by (simp add: d_def)
  have "sorted_wrt (\<lambda>x y. span_start i n + of_nat x * d \<le> span_start i n + of_nat y * d) [0..<10]"
  proof (rule sorted_wrt_mono_rel [of _ "(\<le>)"])
    fix x y :: nat assume "x \<le> y"
    then have "(of_nat x :: rat) * d \<le> of_nat y * d" using d by (intro mult_right_mono) simp_all
    then show "span_start i n + of_nat x * d \<le> span_start i n + of_nat y * d" by simp
  next
    show "sorted_wrt (\<le>) [0..<10::nat]" using sorted_upt [of 0 10] by simp
  qed
  then have m: "sorted (map (\<lambda>k. span_start i n + of_nat k * d) [0..<10])"
    by (simp only: sorted_map)
  have "\<forall>v \<in> set (map (\<lambda>k. span_start i n + of_nat k * d) [0..<10]). v \<le> span_end i n"
    using segment_ramp_range [OF assms, of _ i] unfolding segment_ramp_form [OF assms] d_def
    by auto
  then show ?thesis
    unfolding segment_ramp_form [OF assms] d_def [symmetric] using m
    by (simp add: sorted_append del: upt_Suc)
qed

lemma segment_ramp_last: "last (segment_ramp i n) = span_end i n"
  by (simp add: segment_ramp_def span_end_def Let_def)

lemma span_bounds:
  assumes "0 < n" "1 \<le> i" "i \<le> n"
  shows "30 \<le> span_start i n" "span_end i n \<le> 100"
proof -
  have pos: "(0::rat) < of_nat n" using assms(1) by simp
  have "(1::rat) \<le> of_nat i" using assms(2) by simp
  then have "0 \<le> 70 * ((of_nat i :: rat) - 1) / of_nat n" using pos by simp
  then show "30 \<le> span_start i n" by (simp add: span_start_def)
  have "(of_nat i :: rat) \<le> of_nat n" using assms(3) by simp
  then have "(of_nat i :: rat) / of_nat n \<le> 1" using pos by (simp add: divide_le_eq)
  then show "span_end i n \<le> 100" by (simp add: span_end_def)
qed

lemma process_segment_queue:
  assumes "process_segment w out temp_output segment i n s = (r, s')"
  shows "(isl r \<and> progress_queue s' = progress_queue s)
       \<or> (r = Inr () \<and> progress_queue s' = progress_queue s @ segment_ramp i n)"
  using assms
  by (auto simp: process_segment_def segment_body_def Let_def
      split: sum.splits option.splits if_splits prod.splits)

lemma process_segments_queue:
  assumes "process_segments w out temp_output segments i n s = (Inr u, s')"
  shows "progress_queue s' = progress_queue s @ concat (map (\<lambda>j. segment_ramp j n) [i ..< i + length segments])"
  using assms
proof (induction segments arbitrary: i s)
  case Nil
  then show ?case by simp
next
  case (Cons x xs)
  obtain r1 s1 where p: "process_segment w out temp_output x i n s = (r1, s1)"
    by (cases "process_segment w out temp_output x i n s")
  have r1: "r1 = Inr ()" using Cons.prems p by (cases r1) auto
  then have q: "progress_queue s1 = progress_queue s @ segment_ramp i n"
    using process_segment_queue [OF p] by auto
  have "process_segments w out temp_output xs (Suc i) n s1 = (Inr u, s')"
    using Cons.prems p r1 by simp
  then have "progress_queue s' = progress_queue s1
               @ concat (map (\<lambda>j. segment_ramp j n) [Suc i ..< Suc i + length xs])"
    by (rule Cons.IH)
  then show ?case using q by (simp add: upt_conv_Cons del: upt_Suc)
qed

lemma process_segments_bounded:
  assumes "0 < n" "1 \<le> i" "i + length segments \<le> Suc n"
    "process_segments w out temp_output segments i n s = (r, s')"
  shows "set (progress_queue s') \<subseteq> set (progress_queue s) \<union> {30..100}"
  using assms(2-)
proof (induction segments arbitrary: i s)
  case Nil
  then show ?case by simp
next
  case (Cons x xs)
  obtain r1 s1 where p: "process_segment w out temp_output x i n s = (r1, s1)"
    by (cases "process_segment w out temp_output x i n s")
  from process_segment_queue [OF p] show ?case
  proof
    assume a: "isl r1 \<and> progress_queue s1 = progress_queue s"
    then have "s' = s1" using Cons.prems(3) p by (cases r1) auto
    then show ?thesis using a by auto
  next
    assume a: "r1 = Inr () \<and> progress_queue s1 = progress_queue s @ segment_ramp i n"
    have i: "i \<le> n" using Cons.prems(2) by simp
    have "\<forall>v \<in> set (segment_ramp i n). span_start i n \<le> v \<and> v \<le> span_end i n"
      using segment_ramp_range [OF assms(1)] by blast
    then have rng: "set (segment_ramp i n) \<subseteq> {30..100}"
      using span_bounds [OF assms(1) Cons.prems(1) i] by fastforce
    have "process_segments w out temp_output xs (Suc i) n s1 = (r, s')"
      using Cons.prems(3) p a by simp
    then have "set (progress_queue s') \<subseteq> set (progress_queue s1) \<union> {30..100}"
      using Cons.IH [of "Suc i" s1] Cons.prems(2) by simp
    then show ?thesis using rng a by auto
  qed
qed

lemma process_segments_sorted:
  assumes "0 < n"
    "process_segments w out temp_output segments i n s = (r, s')"
    "sorted (progress_queue s)" "\<forall>v \<in> set (progress_queue s). v \<le> span_start i n"
  shows "sorted (progress_queue s')"
  using assms(2-)
proof (induction segments arbitrary: i s)
  case Nil
  then show ?case by simp
next
  case (Cons x xs)
  obtain r1 s1 where p: "process_segment w out temp_output x i n s = (r1, s1)"
    by (cases "process_segment w out temp_output x i n s")
  from process_segment_queue [OF p] show ?case
  proof
    assume a: "isl r1 \<and> progress_queue s1 = progress_queue s"
    then have "s' = s1" using Cons.prems(1) p by (cases r1) auto
    then show ?thesis using a Cons.prems(2) by auto
  next
    assume a: "r1 = Inr () \<and> progress_queue s1 = progress_queue s @ segment_ramp i n"
    have rng: "\<forall>v \<in> set (segment_ramp i n). span_start i n \<le> v \<and> v \<le> span_end i n"
      using segment_ramp_range [OF assms(1)] by blast
    have s1: "sorted (progress_queue s1)"
      using a Cons.prems(2,3) rng segment_ramp_sorted [OF assms(1), of i]
      by (fastforce simp: sorted_append)
    have le: "span_start i n \<le> span_end i n"
      using span_end_step(1) [OF assms(1), of i] assms(1) by simp
    have u1: "\<forall>v \<in> set (progress_queue s1). v \<le> span_start (Suc i) n"
      using a Cons.prems(3) rng le span_end_step(2) [OF assms(1), of i]
      by (auto intro: order_trans)
    have "process_segments w out temp_output xs (Suc i) n s1 = (r, s')"
      using Cons.prems(1) p a by simp
    then show ?thesis using Cons.IH [of "Suc i" s1] s1 u1 by simp
  qed
qed

lemma combine_ticks_props:
  "sorted (map (\<lambda>k. (of_nat k :: rat) / 10) [1 ..< Suc m])"
  "m \<le> 980 \<Longrightarrow> set (map (\<lambda>k. (of_nat k :: rat) / 10) [1 ..< Suc m]) \<subseteq> {0..100}"
  "m \<le> 300 \<Longrightarrow> \<forall>v \<in> set (map (\<lambda>k. (of_nat k :: rat) / 10) [1 ..< Suc m]). v \<le> 30"
proof -
  have "sorted_wrt (\<lambda>x y. (of_nat x :: rat) / 10 \<le> of_nat y / 10) [1 ..< Suc m]"
    by (rule sorted_wrt_mono_rel [of _ "(\<le>)"]) (use sorted_upt [of 1 "Suc m"] in simp_all)
  then show "sorted (map (\<lambda>k. (of_nat k :: rat) / 10) [1 ..< Suc m])"
    by (simp only: sorted_map)
  show "set (map (\<lambda>k. (of_nat k :: rat) / 10) [1 ..< Suc m]) \<subseteq> {0..100}" if "m \<le> 980"
  proof
    fix v :: rat assume "v \<in> set (map (\<lambda>k. (of_nat k :: rat) / 10) [1 ..< Suc m])"
    then obtain k where k: "k \<le> m" "v = of_nat k / 10" by auto
    then have "(of_nat k :: rat) \<le> 980" using that by simp
    then show "v \<in> {0..100}" using k(2) by simp
  qed
  show "\<forall>v \<in> set (map (\<lambda>k. (of_nat k :: rat) / 10) [1 ..< Suc m]). v \<le> 30" if "m \<le> 300"
  proof
    fix v :: rat assume "v \<in> set (map (\<lambda>k. (of_nat k :: rat) / 10) [1 ..< Suc m])"
    then obtain k where k: "k \<le> m" "v = of_nat k / 10" by auto
    then have "(of_nat k :: rat) \<le> 300" using that by simp
    then show "v \<le> 30" using k(2) by simp
  qed
qed

lemma try_block_progress:
  assumes "try_block w top_path bottom_path out sw sh temp_output segments s = (r, s')"
    "progress_queue s = []"
  shows "set (progress_queue s') \<subseteq> {0..100}"
    and "combine_polls w \<le> 300 \<Longrightarrow> sorted (progress_queue s')"
    and "r = Inr u \<Longrightarrow> segments \<noteq> [] \<Longrightarrow> last (progress_queue s') = 100"
proof -
  let ?m = "min (combine_polls w) 980"
  let ?ticks = "map (\<lambda>k. (of_nat k :: rat) / 10) [1 ..< Suc ?m]"
  let ?s1 = "put_status ''Combining videos...'' s"
  let ?s2 = "act (Exec (combine_command ?s1 top_path bottom_path sw sh temp_output)) ?s1"
  let ?s3 = "combine_monitor (combine_polls w) 0 ?s2"
  let ?n = "length segments"
  have "progress_queue (combine_monitor (combine_polls w) (of_nat 0 / 10) ?s2)
        = progress_queue ?s2 @ map (\<lambda>k. of_nat k / 10) [Suc 0 ..< Suc (min (0 + combine_polls w) 980)]"
    by (rule combine_monitor_queue) simp
  then have q3: "progress_queue ?s3 = ?ticks" using assms(2) by simp
  have t: "sorted ?ticks" "set ?ticks \<subseteq> {0..100}"
    "combine_polls w \<le> 300 \<Longrightarrow> \<forall>v \<in> set ?ticks. v \<le> 30"
    using combine_ticks_props [of ?m] by simp_all
  consider (spawn) "\<not> popen_ok w" | (combine) "popen_ok w" "combine_returncode w \<noteq> 0"
    | (segs) "popen_ok w" "combine_returncode w = 0" by blast
  then have "set (progress_queue s') \<subseteq> {0..100}
      \<and> (combine_polls w \<le> 300 \<longrightarrow> sorted (progress_queue s'))
      \<and> (r = Inr u \<longrightarrow> segments \<noteq> [] \<longrightarrow> last (progress_queue s') = 100)"
  proof cases
    case spawn
    then have "s' = ?s2" "r = Inl SpawnError" using assms(1) by (auto simp: try_block_def Let_def)
    then show ?thesis using assms(2) by simp
  next
    case combine
    then have "s' = ?s3" "isl r" using assms(1) by (auto simp: try_block_def Let_def)
    then show ?thesis using q3 t by auto
  next
    case segs
    then have ps: "process_segments w out temp_output segments 1 ?n (put_progress 30 ?s3) = (r, s')"
      using assms(1) by (simp add: try_block_def Let_def)
    have q4: "progress_queue (put_progress 30 ?s3) = ?ticks @ [30]" using q3 by simp
    show ?thesis
    proof (cases "segments = []")
      case True
      then have "s' = put_progress 30 ?s3" using ps by simp
      then show ?thesis using q4 t True by (auto simp: sorted_append)
    next
      case False
      then have n: "0 < ?n" by simp
      have st: "span_start 1 ?n = 30" by (simp add: span_start_def)
      have bounded: "set (progress_queue s') \<subseteq> {0..100}"
        using process_segments_bounded [OF n _ _ ps] q4 t(2) by auto
      have srt: "sorted (progress_queue s')" if "combine_polls w \<le> 300"
      proof -
        have "sorted (?ticks @ [30])" using t that by (auto simp: sorted_append)
        moreover have "\<forall>v \<in> set (?ticks @ [30]). v \<le> span_start 1 ?n"
          using t(3) that st by auto
        ultimately show ?thesis
          using process_segments_sorted [OF n ps] q4 by simp
      qed
      have lst: "last (progress_queue s') = 100" if "r = Inr u"
      proof -
        have "progress_queue s' = progress_queue (put_progress 30 ?s3)
                @ concat (map (\<lambda>j. segment_ramp j ?n) [1 ..< 1 + ?n])"
          using process_segments_queue [of w out temp_output segments 1 ?n _ u s'] ps that
          by simp
        moreover have "[1 ..< 1 + ?n] = [1 ..< ?n] @ [?n]"
          using n by (simp add: upt_Suc_append Suc_le_eq)
        ultimately have "progress_queue s' = (progress_queue (put_progress 30 ?s3)
                @ concat (map (\<lambda>j. segment_ramp j ?n) [1 ..< ?n])) @ segment_ramp ?n ?n"
          by simp
        moreover have "segment_ramp ?n ?n \<noteq> []" by (simp add: segment_ramp_def Let_def)
        ultimately have "last (progress_queue s') = last (segment_ramp ?n ?n)"
          by (metis last_appendR)
        also have "\<dots> = 100" using n by (simp add: segment_ramp_last span_end_def)
        finally show ?thesis .
      qed
      show ?thesis using bounded srt lst by blast
    qed
  qed
  then show "set (progress_queue s') \<subseteq> {0..100}"
    and "combine_polls w \<le> 300 \<Longrightarrow> sorted (progress_queue s')"
    and "r = Inr u \<Longrightarrow> segments \<noteq> [] \<Longrightarrow> last (progress_queue s') = 100"
    by simp_all
qed


lemma process_videos_not_validated:
  assumes "\<not> validated w s"
  shows "progress_queue (snd (process_videos w segments s)) = progress_queue s"
    and "ffmpeg_present w \<Longrightarrow> isl (fst (process_videos w segments s))"
  using assms
  by (auto simp: validated_def process_videos_def check_ffmpeg_def Let_def split: option.splits)

lemma run_progress_properties:
  assumes "progress_queue s = []"
  shows "set (progress_queue (snd (process_videos w segments s))) \<subseteq> {0..100}"
    and "combine_polls w \<le> 300 \<Longrightarrow> sorted (progress_queue (snd (process_videos w segments s)))"
    and "ffmpeg_present w \<Longrightarrow> fst (process_videos w segments s) = Inr () \<Longrightarrow> segments \<noteq> []
         \<Longrightarrow> last (progress_queue (snd (process_videos w segments s))) = 100"
proof -
  let ?q = "progress_queue (snd (process_videos w segments s))"
  have "set ?q \<subseteq> {0..100} \<and> (combine_polls w \<le> 300 \<longrightarrow> sorted ?q)
        \<and> (ffmpeg_present w \<longrightarrow> fst (process_videos w segments s) = Inr () \<longrightarrow> segments \<noteq> []
             \<longrightarrow> last ?q = 100)"
  proof (cases "validated w s")
    case False
    then show ?thesis
      using process_videos_not_validated [OF False, of segments] assms by auto
  next
    case True
    let ?s0 = "put_status ''Analyzing videos...'' (act (Exec [''ffmpeg'', ''-version'']) s)"
    from True obtain t b out sw sh where
      pv: "process_videos w segments s =
             (case try_block w t b out sw sh (temp_output_path w s) segments ?s0 of
                (r, s2) \<Rightarrow>
                  ((case r of Inl err \<Rightarrow> Inl (ProcessingFailed err) | Inr u \<Rightarrow> Inr u),
                   finally_block w (temp_output_path w s) s2))"
      using process_videos_validated [of w s segments] by blast
    obtain r s2 where tb: "try_block w t b out sw sh (temp_output_path w s) segments ?s0 = (r, s2)"
      by (cases "try_block w t b out sw sh (temp_output_path w s) segments ?s0")
    have q0: "progress_queue ?s0 = []" using assms by simp
    have q: "?q = progress_queue s2" using pv tb by simp
    have r: "r = Inr ()" if "fst (process_videos w segments s) = Inr ()"
      using that pv tb by (cases r) auto
    show ?thesis
      unfolding q
      using try_block_progress(1,2) [OF tb q0] try_block_progress(3) [OF tb q0, of "()"] r
      by blast
  qed
  then show "set ?q \<subseteq> {0..100}"
    and "combine_polls w \<le> 300 \<Longrightarrow> sorted ?q"
    and "ffmpeg_present w \<Longrightarrow> fst (process_videos w segments s) = Inr () \<Longrightarrow> segments \<noteq> []
         \<Longrightarrow> last ?q = 100"
    by simp_all
qed

end
